theory Spec2Isabelle
  imports Complex_Main
begin

section \<open>The audio player of \<open>audio.py\<close>\<close>

text \<open>
  A shallow embedding of the class \<open>AudioPlayer\<close>: the instance fields become a record,
  every method becomes a function from the state to an outcome, and the three
  collaborators the methods reach for (the mixer of pygame, the tick counter of pygame and
  the tag reader of mutagen) become the record \<open>env\<close>, which says for one call of a method
  what the tick counter reads and which commands the mixer accepts.

  Python's \<open>float\<close> is idealised as \<open>real\<close>: the arithmetic on positions is exact here.
\<close>

subsection \<open>Python values\<close>

datatype exn = IndexError | PygameError

text \<open>\<open>xs[i]\<close>: a negative index counts from the end, an index out of range raises.\<close>

definition py_index :: "'a list \<Rightarrow> int \<Rightarrow> 'a option" where
  "py_index xs i =
     (if 0 \<le> i \<and> i < int (length xs) then Some (xs ! nat i)
      else if i < 0 \<and> - int (length xs) \<le> i then Some (xs ! nat (int (length xs) + i))
      else None)"

text \<open>\<open>int(x)\<close> of a float truncates towards zero.\<close>

definition py_int :: "real \<Rightarrow> int" where
  "py_int x = (if 0 \<le> x then \<lfloor>x\<rfloor> else \<lceil>x\<rceil>)"

definition digit_char :: "nat \<Rightarrow> char" where
  "digit_char d = ''0123456789'' ! d"

text \<open>\<open>str(n)\<close> for a natural number: its decimal digits, most significant first.\<close>

fun str_nat :: "nat \<Rightarrow> string" where
  "str_nat n = (if n < 10 then [digit_char n] else str_nat (n div 10) @ [digit_char (n mod 10)])"

declare str_nat.simps [simp del]

definition py_str :: "int \<Rightarrow> string" where
  "py_str i = (if i < 0 then CHR ''-'' # str_nat (nat (- i)) else str_nat (nat i))"

definition zero_pad :: "nat \<Rightarrow> string \<Rightarrow> string" where
  "zero_pad w s = replicate (w - length s) CHR ''0'' @ s"

text \<open>The format specification \<open>:02\<close> of an f-string: width two, filled with zeros after the sign.\<close>

definition fmt_02 :: "int \<Rightarrow> string" where
  "fmt_02 i = (if i < 0 then CHR ''-'' # zero_pad 1 (str_nat (nat (- i))) else zero_pad 2 (str_nat (nat i)))"

text \<open>Reading a decimal numeral back; \<open>None\<close> when a character is not a digit or the string is empty.\<close>

definition digit_val :: "char \<Rightarrow> nat option" where
  "digit_val c =
     map_of [(CHR ''0'', 0), (CHR ''1'', 1), (CHR ''2'', 2), (CHR ''3'', 3), (CHR ''4'', 4),
             (CHR ''5'', 5), (CHR ''6'', 6), (CHR ''7'', 7), (CHR ''8'', 8), (CHR ''9'', 9)] c"

fun decimal_acc :: "nat \<Rightarrow> string \<Rightarrow> nat option" where
  "decimal_acc a [] = Some a"
| "decimal_acc a (c # cs) = (case digit_val c of None \<Rightarrow> None | Some d \<Rightarrow> decimal_acc (10 * a + d) cs)"

definition nat_of_decimal :: "string \<Rightarrow> nat option" where
  "nat_of_decimal s = (if s = [] then None else decimal_acc 0 s)"

subsection \<open>The state of the player and its collaborators\<close>

datatype icon = PlayBnt | PauseBnt

text \<open>The commands sent to \<open>pygame.mixer.music\<close>.\<close>

datatype cmd =
    Load string
  | Play
  | PlayFrom real
  | Pause
  | Unpause
  | SetPos real
  | SetVolume real

text \<open>
  The fields of \<open>AudioPlayer\<close>. \<open>window_icon\<close> is \<open>player_window.current_icon\<close>.
  \<open>backend_calls\<close> is not a field of the class: it records, in order, every command the
  methods have sent to the mixer, whether the mixer accepted it or not.
\<close>

record player =
  AUDIO_OK :: bool
  playlist :: "string list"
  index :: int
  is_playing :: bool
  paused :: bool
  loop_mode :: int
  current_song_title :: string
  current_song_artist :: string
  current_song_length :: string
  current_song_position :: string
  song_length :: int
  seek_offset :: real
  last_update_time :: int
  current_icon :: icon
  window_icon :: icon
  backend_calls :: "cmd list"

text \<open>What \<open>MP3(path, ID3=EasyID3)\<close> gives for a readable file.\<close>

record mp3_file =
  title_tag :: "string list option"
  artist_tag :: "string list option"
  info_length :: real

text \<open>
  The collaborators during one call of a method: the value of \<open>pygame.time.get_ticks()\<close>,
  for each mixer command whether it returns (\<open>True\<close>) or raises \<open>pygame.error\<close>, and the
  tag reader (\<open>None\<close> when \<open>MP3(...)\<close> raises).
\<close>

record env =
  ticks :: int
  load_ok :: "string \<Rightarrow> bool"
  play_ok :: bool
  play_start_ok :: "real \<Rightarrow> bool"
  pause_ok :: bool
  unpause_ok :: bool
  set_pos_ok :: "real \<Rightarrow> bool"
  set_volume_ok :: "real \<Rightarrow> bool"
  read_mp3 :: "string \<Rightarrow> mp3_file option"

text \<open>
  A method either returns, leaving the state \<open>Inr s\<close>, or raises, \<open>Inl (x, s)\<close>, where \<open>s\<close>
  is the state of the object at the moment of the raise.
\<close>

type_synonym outcome = "(exn \<times> player) + player"

definition then_do :: "outcome \<Rightarrow> (player \<Rightarrow> outcome) \<Rightarrow> outcome" where
  "then_do r f = (case r of Inl x \<Rightarrow> Inl x | Inr s \<Rightarrow> f s)"

definition backend_call :: "bool \<Rightarrow> cmd \<Rightarrow> player \<Rightarrow> outcome" where
  "backend_call ok c s =
     (let s' = s\<lparr>backend_calls := backend_calls s @ [c]\<rparr>
      in if ok then Inr s' else Inl (PygameError, s'))"

subsection \<open>The methods\<close>

text \<open>\<open>__init__\<close>: \<open>ok\<close> says whether \<open>pygame.mixer.init()\<close> succeeded, \<open>ic\<close> is the icon of the window.\<close>

definition init :: "bool \<Rightarrow> icon \<Rightarrow> player" where
  "init ok ic =
     \<lparr>AUDIO_OK = ok, playlist = [], index = 0, is_playing = False, paused = False,
      loop_mode = 0, current_song_title = '''', current_song_artist = '''',
      current_song_length = ''0:00'', current_song_position = ''0:00'', song_length = 0,
      seek_offset = 0, last_update_time = 0, current_icon = ic, window_icon = ic,
      backend_calls = []\<rparr>"

definition first_tag :: "string list option \<Rightarrow> string" where
  "first_tag t = (case t of Some (x # _) \<Rightarrow> x | _ \<Rightarrow> '''')"

definition song_meta_data :: "env \<Rightarrow> player \<Rightarrow> player" where
  "song_meta_data e s =
     (case py_index (playlist s) (index s) of
        None \<Rightarrow> s
      | Some path \<Rightarrow>
          (case read_mp3 e path of
             None \<Rightarrow> s
           | Some audio_file \<Rightarrow>
               (let title = first_tag (title_tag audio_file);
                    artist = first_tag (artist_tag audio_file);
                    seconds = py_int (info_length audio_file);
                    minutes = seconds div 60;
                    remaining_seconds = seconds mod 60;
                    duration = py_str minutes @ '':'' @ fmt_02 remaining_seconds
                in s\<lparr>song_length := seconds, current_song_title := title,
                      current_song_artist := artist, current_song_length := duration\<rparr>)))"

definition play_music :: "env \<Rightarrow> string \<Rightarrow> player \<Rightarrow> outcome" where
  "play_music e song s =
     (if AUDIO_OK s then
        then_do (backend_call (load_ok e song) (Load song) s) (\<lambda>s1.
        then_do (backend_call (play_ok e) Play s1) (\<lambda>s2.
          Inr (song_meta_data e
                 (s2\<lparr>is_playing := True, paused := False, seek_offset := 0,
                      last_update_time := ticks e\<rparr>))))
      else Inr s)"

text \<open>The call \<open>self._play_music(self.playlist[self.index])\<close>, the argument evaluated first.\<close>

definition play_current :: "env \<Rightarrow> player \<Rightarrow> outcome" where
  "play_current e s =
     (case py_index (playlist s) (index s) of
        None \<Rightarrow> Inl (IndexError, s)
      | Some song \<Rightarrow> play_music e song s)"

definition pause_music :: "env \<Rightarrow> player \<Rightarrow> outcome" where
  "pause_music e s =
     (if AUDIO_OK s then
        then_do (backend_call (pause_ok e) Pause s) (\<lambda>s1.
          Inr (s1\<lparr>is_playing := False, paused := True\<rparr>))
      else Inr s)"

definition toggle_play_pause :: "env \<Rightarrow> player \<Rightarrow> outcome" where
  "toggle_play_pause e s =
     (if playlist s = [] then Inr s
      else if is_playing s then
        (let s1 = (case pause_music e s of Inr s' \<Rightarrow> s' | Inl (x, s') \<Rightarrow> s')
         in Inr (s1\<lparr>is_playing := False, current_icon := PlayBnt\<rparr>))
      else
        (let attempt =
               (if \<not> paused s then play_current e s
                else then_do (backend_call (unpause_ok e) Unpause s) (\<lambda>s1.
                       Inr (s1\<lparr>paused := False\<rparr>)))
         in then_do (case attempt of Inr s' \<Rightarrow> Inr s' | Inl (x, s') \<Rightarrow> play_current e s')
              (\<lambda>s2. Inr (s2\<lparr>is_playing := True, current_icon := PauseBnt\<rparr>))))"

text \<open>\<open>add_songs\<close>: \<open>files\<close> is what the file dialog returned.\<close>

definition add_songs :: "env \<Rightarrow> string list \<Rightarrow> player \<Rightarrow> outcome" where
  "add_songs e files s =
     (if files \<noteq> [] then
        then_do (play_current e (s\<lparr>playlist := files\<rparr>)) (\<lambda>s1.
          Inr (s1\<lparr>is_playing := True, current_icon := PauseBnt\<rparr>))
      else Inr s)"

definition next_song :: "env \<Rightarrow> player \<Rightarrow> outcome" where
  "next_song e s =
     (if playlist s = [] then Inr s
      else
        then_do (play_current e (s\<lparr>index := (index s + 1) mod int (length (playlist s))\<rparr>)) (\<lambda>s1.
          Inr (s1\<lparr>is_playing := True, current_icon := PauseBnt\<rparr>)))"

definition previous_song :: "env \<Rightarrow> player \<Rightarrow> outcome" where
  "previous_song e s =
     (if playlist s = [] then Inr s
      else
        then_do (play_current e (s\<lparr>index := (index s - 1) mod int (length (playlist s))\<rparr>)) (\<lambda>s1.
          Inr (s1\<lparr>is_playing := True, current_icon := PauseBnt\<rparr>)))"

definition change_volume :: "env \<Rightarrow> real \<Rightarrow> player \<Rightarrow> outcome" where
  "change_volume e v s = backend_call (set_volume_ok e v) (SetVolume v) s"

definition adjust_song :: "env \<Rightarrow> real \<Rightarrow> player \<Rightarrow> outcome" where
  "adjust_song e v s =
     (if playlist s = [] \<or> song_length s = 0 then Inr s
      else
        (let position_seconds = v * real_of_int (song_length s);
             s1 = s\<lparr>seek_offset := position_seconds, last_update_time := ticks e\<rparr>;
             attempt =
               then_do (backend_call (set_pos_ok e position_seconds) (SetPos position_seconds) s1) (\<lambda>s2.
                 if \<not> is_playing s2 then
                   then_do (backend_call (play_start_ok e position_seconds) (PlayFrom position_seconds) s2) (\<lambda>s3.
                     Inr (s3\<lparr>is_playing := True, paused := False\<rparr>))
                 else if paused s2 then
                   then_do (backend_call (unpause_ok e) Unpause s2) (\<lambda>s3.
                     Inr (s3\<lparr>paused := False\<rparr>))
                 else Inr s2)
         in (case attempt of
               Inr s' \<Rightarrow> Inr s'
             | Inl (x, s') \<Rightarrow> (if x = PygameError then Inr s' else Inl (x, s')))))"

definition get_current_position :: "env \<Rightarrow> player \<Rightarrow> real" where
  "get_current_position e s =
     (if \<not> is_playing s \<or> paused s then seek_offset s
      else
        (let elapsed = real_of_int (ticks e - last_update_time s) / 1000;
             current_pos = seek_offset s + elapsed
         in min current_pos (real_of_int (song_length s))))"

definition convert_sec_min :: "real \<Rightarrow> string" where
  "convert_sec_min seconds =
     (let minutes = py_int seconds div 60;
          remaining_seconds = py_int seconds mod 60
      in py_str minutes @ '':'' @ fmt_02 remaining_seconds)"

definition update_current_position :: "env \<Rightarrow> player \<Rightarrow> player" where
  "update_current_position e s =
     (if playlist s \<noteq> [] \<and> song_length s > 0 then
        s\<lparr>current_song_position := convert_sec_min (get_current_position e s)\<rparr>
      else s\<lparr>current_song_position := ''0:00''\<rparr>)"

text \<open>\<open>toggle_loop_mode\<close> returns the new mode, which is the field \<open>loop_mode\<close> of the result.\<close>

definition toggle_loop_mode :: "player \<Rightarrow> player" where
  "toggle_loop_mode s = s\<lparr>loop_mode := (loop_mode s + 1) mod 3\<rparr>"

definition on_song_end :: "env \<Rightarrow> player \<Rightarrow> outcome" where
  "on_song_end e s =
     (if loop_mode s = 2 then
        then_do (play_current e s) (\<lambda>s1.
          Inr (s1\<lparr>window_icon := PauseBnt, current_icon := PauseBnt\<rparr>))
      else if loop_mode s = 1 then next_song e s
      else
        Inr (s\<lparr>is_playing := False, paused := False, seek_offset := 0, last_update_time := 0,
               window_icon := PlayBnt, current_icon := PlayBnt\<rparr>))"

subsection \<open>The event loop\<close>

text \<open>
  The calls the main loop of \<open>player.py\<close> makes on the player, one per event or frame.
  The loop has no handler for what these calls raise, so a raise ends the run.
\<close>

datatype intent =
    AddSongs "string list"
  | TogglePlayPause
  | NextSong
  | PreviousSong
  | AdjustSong real
  | ChangeVolume real
  | ToggleLoopMode
  | SongEnd
  | UpdatePosition

fun step :: "env \<Rightarrow> intent \<Rightarrow> player \<Rightarrow> outcome" where
  "step e (AddSongs files) s = add_songs e files s"
| "step e TogglePlayPause s = toggle_play_pause e s"
| "step e NextSong s = next_song e s"
| "step e PreviousSong s = previous_song e s"
| "step e (AdjustSong v) s = adjust_song e v s"
| "step e (ChangeVolume v) s = change_volume e v s"
| "step e ToggleLoopMode s = Inr (toggle_loop_mode s)"
| "step e SongEnd s = on_song_end e s"
| "step e UpdatePosition s = Inr (update_current_position e s)"

fun run :: "(env \<times> intent) list \<Rightarrow> player \<Rightarrow> outcome" where
  "run [] s = Inr s"
| "run ((e, i) # tr) s = (case step e i s of Inl x \<Rightarrow> Inl x | Inr s' \<Rightarrow> run tr s')"

text \<open>The status of the specification, read off the two flags as \<open>get_current_position\<close> reads them.\<close>

datatype status = Stopped | Playing | Paused

definition status_of :: "player \<Rightarrow> status" where
  "status_of s = (if paused s then Paused else if is_playing s then Playing else Stopped)"

text \<open>A backend that accepts every command at tick \<open>t\<close>, with the tag reader \<open>rd\<close>.\<close>

definition accepting :: "int \<Rightarrow> (string \<Rightarrow> mp3_file option) \<Rightarrow> env" where
  "accepting t rd =
     \<lparr>ticks = t, load_ok = (\<lambda>_. True), play_ok = True, play_start_ok = (\<lambda>_. True),
      pause_ok = True, unpause_ok = True, set_pos_ok = (\<lambda>_. True),
      set_volume_ok = (\<lambda>_. True), read_mp3 = rd\<rparr>"

definition tagged :: "string \<Rightarrow> string \<Rightarrow> real \<Rightarrow> mp3_file" where
  "tagged t a len = \<lparr>title_tag = Some [t], artist_tag = Some [a], info_length = len\<rparr>"

subsection \<open>Auxiliary notions for stating the properties\<close>

text \<open>The state a method returned, if it returned; the exception it raised, if it raised.\<close>

definition returned :: "outcome \<Rightarrow> player option" where
  "returned r = (case r of Inl _ \<Rightarrow> None | Inr s \<Rightarrow> Some s)"

definition raised :: "outcome \<Rightarrow> exn option" where
  "raised r = (case r of Inl (x, _) \<Rightarrow> Some x | Inr _ \<Rightarrow> None)"

definition final_state :: "outcome \<Rightarrow> player" where
  "final_state r = (case r of Inl (x, s) \<Rightarrow> s | Inr s \<Rightarrow> s)"

text \<open>
  The inductive invariant of the event loop. \<open>paused\<close> is only ever set by
  \<open>_pause_music\<close>, which runs under \<open>AUDIO_OK\<close>; the index is only ever
  moved modulo the length of a non-empty playlist.
\<close>

definition player_inv :: "player \<Rightarrow> bool" where
  "player_inv s =
     (\<not> (is_playing s \<and> paused s)
      \<and> (paused s \<longrightarrow> AUDIO_OK s)
      \<and> 0 \<le> index s
      \<and> (playlist s \<noteq> [] \<longrightarrow> index s < int (length (playlist s)))
      \<and> (is_playing s \<or> paused s \<longrightarrow> playlist s \<noteq> []))"

text \<open>A tag reader that knows one file, 200.5 seconds long.\<close>

definition rd_a :: "string \<Rightarrow> mp3_file option" where
  "rd_a p = (if p = ''a.mp3'' then Some (tagged ''Song A'' ''Artist A'' (2005 / 10)) else None)"

text \<open>
  Well-formed input: a file that can be read has a length that is not negative, and the
  progress slider hands \<open>adjust_song\<close> a value in \<open>[0, 1]\<close> (\<open>slider.py\<close> clamps it).
\<close>

definition lengths_nonneg :: "env \<Rightarrow> bool" where
  "lengths_nonneg e = (\<forall>p f. read_mp3 e p = Some f \<longrightarrow> 0 \<le> info_length f)"

fun fraction_ok :: "intent \<Rightarrow> bool" where
  "fraction_ok (AdjustSong v) = (0 \<le> v \<and> v \<le> 1)"
| "fraction_ok _ = True"

definition wf_event :: "env \<times> intent \<Rightarrow> bool" where
  "wf_event ei = (lengths_nonneg (fst ei) \<and> fraction_ok (snd ei))"

text \<open>What the clamp of \<open>get_current_position\<close> leans on while the player is not playing.\<close>

definition clock_inv :: "player \<Rightarrow> bool" where
  "clock_inv s = (0 \<le> song_length s \<and> seek_offset s \<le> real_of_int (song_length s))"

text \<open>
  The fixture \<open>audio_player_with_playlist\<close> of \<open>tests/conftest.py\<close>: three songs, a
  song length of 180 seconds, the mixer initialised.
\<close>

definition audio_player_with_playlist :: player where
  "audio_player_with_playlist =
     (init True PlayBnt)\<lparr>playlist := [''song1.mp3'', ''song2.mp3'', ''song3.mp3''],
                          song_length := 180\<rparr>"

text \<open>A backend that raises \<open>pygame.error\<close> on \<open>set_pos\<close>.\<close>

definition rejecting_set_pos :: "env \<Rightarrow> env" where
  "rejecting_set_pos e = e\<lparr>set_pos_ok := (\<lambda>_. False)\<rparr>"

section \<open>Properties\<close>

subsection \<open>Evaluation\<close>

lemmas eval_defs =
  add_songs_def next_song_def previous_song_def toggle_play_pause_def adjust_song_def
  change_volume_def on_song_end_def toggle_loop_mode_def update_current_position_def
  play_current_def play_music_def pause_music_def song_meta_data_def backend_call_def
  then_do_def py_index_def py_int_def py_str_def fmt_02_def zero_pad_def digit_char_def
  first_tag_def init_def accepting_def tagged_def rd_a_def Let_def
  returned_def raised_def final_state_def status_of_def get_current_position_def
  audio_player_with_playlist_def rejecting_set_pos_def

subsection \<open>The time format\<close>

lemma digit_val_digit_char: "d < 10 \<Longrightarrow> digit_val (digit_char d) = Some d"
proof -
  assume "d < 10"
  then have "d \<in> {0,1,2,3,4,5,6,7,8,9}" by auto
  then show ?thesis
    by (auto simp: digit_val_def digit_char_def)
qed

lemma decimal_acc_append:
  "decimal_acc a (xs @ ys) = (case decimal_acc a xs of None \<Rightarrow> None | Some b \<Rightarrow> decimal_acc b ys)"
  by (induction xs arbitrary: a) (auto split: option.splits)

lemma decimal_acc_str_nat: "decimal_acc 0 (str_nat n) = Some n"
proof (induction n rule: str_nat.induct)
  case (1 n)
  show ?case
  proof (cases "n < 10")
    case True
    then show ?thesis
      by (subst str_nat.simps) (simp add: digit_val_digit_char)
  next
    case False
    with 1 have ih: "decimal_acc 0 (str_nat (n div 10)) = Some (n div 10)" by simp
    have "n mod 10 < 10" by simp
    then have dv: "digit_val (digit_char (n mod 10)) = Some (n mod 10)"
      by (rule digit_val_digit_char)
    show ?thesis
      using False by (subst str_nat.simps) (simp add: decimal_acc_append ih dv)
  qed
qed

lemma str_nat_not_Nil: "str_nat n \<noteq> []"
  by (subst str_nat.simps) simp

lemma nat_of_decimal_str_nat: "nat_of_decimal (str_nat n) = Some n"
  by (simp add: nat_of_decimal_def str_nat_not_Nil decimal_acc_str_nat)

lemma length_str_nat_small: "n < 10 \<Longrightarrow> length (str_nat n) = 1"
  by (subst str_nat.simps) simp

lemma length_str_nat_two: "10 \<le> n \<Longrightarrow> n < 100 \<Longrightarrow> length (str_nat n) = 2"
  by (subst str_nat.simps) (simp add: length_str_nat_small)

lemma digit_val_zero: "digit_val CHR ''0'' = Some 0"
  by (simp add: digit_val_def)

lemma fmt_02_two_digits:
  assumes "0 \<le> r" "r < 100"
  shows "length (fmt_02 r) = 2 \<and> nat_of_decimal (fmt_02 r) = Some (nat r)"
proof (cases "nat r < 10")
  case True
  then have "length (str_nat (nat r)) = 1" by (rule length_str_nat_small)
  then have "fmt_02 r = CHR ''0'' # str_nat (nat r)"
    using assms by (simp add: fmt_02_def zero_pad_def)
  then show ?thesis
    using \<open>length (str_nat (nat r)) = 1\<close>
    by (simp add: nat_of_decimal_def digit_val_zero decimal_acc_str_nat)
next
  case False
  then have "length (str_nat (nat r)) = 2"
    using assms by (intro length_str_nat_two) auto
  then have "fmt_02 r = str_nat (nat r)"
    using assms by (simp add: fmt_02_def zero_pad_def)
  then show ?thesis
    using \<open>length (str_nat (nat r)) = 2\<close> by (simp add: nat_of_decimal_str_nat)
qed

lemma convert_sec_min_0: "convert_sec_min 0 = ''0:00''"
  by (simp add: convert_sec_min_def py_int_def py_str_def fmt_02_def zero_pad_def str_nat.simps digit_char_def)

lemma convert_sec_min_65: "convert_sec_min 65 = ''1:05''"
  by (simp add: convert_sec_min_def py_int_def py_str_def fmt_02_def zero_pad_def str_nat.simps digit_char_def)

lemma convert_sec_min_3661: "convert_sec_min 3661 = ''61:01''"
  by (simp add: convert_sec_min_def py_int_def py_str_def fmt_02_def zero_pad_def str_nat.simps digit_char_def)

text \<open>
  Claim C7. For every \<open>seconds \<ge> 0\<close>, \<open>convert_sec_min\<close> returns the decimal
  numeral of the truncated quotient of the seconds by 60 (of any size), a colon, and the
  remainder modulo 60 written with exactly two digits; on 0, 65 and 3661 it returns
  \<open>0:00\<close>, \<open>1:05\<close> and \<open>61:01\<close>.
\<close>

theorem convert_sec_min_format:
  "0 \<le> seconds \<Longrightarrow>
     (\<exists>m r. convert_sec_min seconds = m @ '':'' @ r
        \<and> nat_of_decimal m = Some (nat \<lfloor>seconds\<rfloor> div 60)
        \<and> length r = 2
        \<and> nat_of_decimal r = Some (nat \<lfloor>seconds\<rfloor> mod 60))
     \<and> convert_sec_min seconds
         = str_nat (nat \<lfloor>seconds\<rfloor> div 60) @ '':'' @ zero_pad 2 (str_nat (nat \<lfloor>seconds\<rfloor> mod 60))
     \<and> convert_sec_min 0 = ''0:00''
     \<and> convert_sec_min 65 = ''1:05''
     \<and> convert_sec_min 3661 = ''61:01''"
proof -
  assume nn: "0 \<le> seconds"
  define k where "k = \<lfloor>seconds\<rfloor>"
  have k0: "0 \<le> k" using nn by (simp add: k_def)
  have pi: "py_int seconds = k" using nn by (simp add: py_int_def k_def)
  have q0: "0 \<le> k div 60" using k0 by (simp add: pos_imp_zdiv_nonneg_iff)
  have r0: "0 \<le> k mod 60" and r1: "k mod 60 < 100"
    by (simp_all add: order_less_trans [OF pos_mod_bound])
  have qn: "nat (k div 60) = nat k div 60" using k0 by (simp add: nat_div_distrib)
  have rn: "nat (k mod 60) = nat k mod 60" using k0 by (simp add: nat_mod_distrib)
  have c: "convert_sec_min seconds = str_nat (nat k div 60) @ '':'' @ fmt_02 (k mod 60)"
    using q0 by (simp add: convert_sec_min_def pi py_str_def qn)
  have f: "fmt_02 (k mod 60) = zero_pad 2 (str_nat (nat k mod 60))"
  proof -
    have "\<not> k mod 60 < 0" using r0 by linarith
    then show ?thesis unfolding fmt_02_def rn by (simp only: if_False)
  qed
  from fmt_02_two_digits [OF r0 r1] c f
  have "(\<exists>m r. convert_sec_min seconds = m @ '':'' @ r
        \<and> nat_of_decimal m = Some (nat k div 60)
        \<and> length r = 2
        \<and> nat_of_decimal r = Some (nat k mod 60))
     \<and> convert_sec_min seconds
         = str_nat (nat k div 60) @ '':'' @ zero_pad 2 (str_nat (nat k mod 60))"
    by (auto simp: nat_of_decimal_str_nat rn intro!: exI)
  with convert_sec_min_0 convert_sec_min_65 convert_sec_min_3661 show ?thesis
    unfolding k_def by blast
qed

theorem convert_sec_min_format_witness:
  "(0::real) \<le> 897 / 10 \<and> convert_sec_min (897 / 10) = ''1:29''"
  using convert_sec_min_format [of "897 / 10"]
  by (simp add: str_nat.simps zero_pad_def digit_char_def)

subsection \<open>The invariant of the event loop\<close>

lemma song_meta_data_fields [simp]:
  "AUDIO_OK (song_meta_data e s) = AUDIO_OK s"
  "playlist (song_meta_data e s) = playlist s"
  "index (song_meta_data e s) = index s"
  "is_playing (song_meta_data e s) = is_playing s"
  "paused (song_meta_data e s) = paused s"
  "loop_mode (song_meta_data e s) = loop_mode s"
  "seek_offset (song_meta_data e s) = seek_offset s"
  "last_update_time (song_meta_data e s) = last_update_time s"
  "backend_calls (song_meta_data e s) = backend_calls s"
  by (simp_all add: song_meta_data_def Let_def split: option.splits)

lemma play_music_Inr:
  assumes "play_music e song s = Inr s'"
  shows "AUDIO_OK s' = AUDIO_OK s" and "playlist s' = playlist s" and "index s' = index s"
    and "loop_mode s' = loop_mode s"
    and "AUDIO_OK s \<Longrightarrow> is_playing s' \<and> \<not> paused s' \<and> seek_offset s' = 0 \<and> last_update_time s' = ticks e"
    and "\<not> AUDIO_OK s \<Longrightarrow> s' = s"
  using assms
  by (auto simp: play_music_def then_do_def backend_call_def Let_def split: if_splits)

lemma play_current_Inr:
  assumes "play_current e s = Inr s'"
  shows "AUDIO_OK s' = AUDIO_OK s" and "playlist s' = playlist s" and "index s' = index s"
    and "loop_mode s' = loop_mode s"
    and "AUDIO_OK s \<Longrightarrow> is_playing s' \<and> \<not> paused s' \<and> seek_offset s' = 0 \<and> last_update_time s' = ticks e"
    and "\<not> AUDIO_OK s \<Longrightarrow> s' = s"
    and "\<exists>song. py_index (playlist s) (index s) = Some song"
  using assms play_music_Inr [of e _ s s']
  by (auto simp: play_current_def split: option.splits)

lemma player_inv_backend_calls [simp]:
  "player_inv (s\<lparr>backend_calls := cs\<rparr>) = player_inv s"
  by (simp add: player_inv_def)

lemma play_music_Inl:
  "play_music e song s = Inl (x, t) \<Longrightarrow> \<exists>cs. t = s\<lparr>backend_calls := cs\<rparr>"
  by (auto simp: play_music_def then_do_def backend_call_def Let_def split: if_splits)

lemma play_current_Inl:
  "play_current e s = Inl (x, t) \<Longrightarrow> \<exists>cs. t = s\<lparr>backend_calls := cs\<rparr>"
  by (auto simp: play_current_def dest: play_music_Inl split: option.splits
        intro: exI [of _ "backend_calls s"])

lemma py_index_Some_bound:
  "py_index xs i = Some x \<Longrightarrow> 0 \<le> i \<Longrightarrow> i < int (length xs)"
  by (auto simp: py_index_def Let_def split: if_splits)

lemma player_inv_init: "player_inv (init ok ic)"
  by (simp add: player_inv_def init_def)

lemma player_inv_add_songs:
  assumes "player_inv s" and "add_songs e files s = Inr s'"
  shows "player_inv s'"
proof (cases "files = []")
  case True
  with assms show ?thesis by (simp add: add_songs_def)
next
  case False
  with assms(2) obtain s1 where
    p: "play_current e (s\<lparr>playlist := files\<rparr>) = Inr s1"
    and s': "s' = s1\<lparr>is_playing := True, current_icon := PauseBnt\<rparr>"
    by (auto simp: add_songs_def then_do_def split: sum.splits)
  from play_current_Inr(7) [OF p] assms(1)
  have b: "index s < int (length files)"
    by (auto simp: player_inv_def dest: py_index_Some_bound)
  show ?thesis
  proof (cases "AUDIO_OK s")
    case True
    with play_current_Inr [OF p] assms(1) b False show ?thesis
      by (simp add: player_inv_def s')
  next
    case False
    with play_current_Inr(6) [OF p] have "s1 = s\<lparr>playlist := files\<rparr>" by simp
    with assms(1) b False \<open>files \<noteq> []\<close> show ?thesis
      by (auto simp: player_inv_def s')
  qed
qed

lemma player_inv_move:
  assumes "player_inv s" and "playlist s \<noteq> []"
    and p: "play_current e (s\<lparr>index := j mod int (length (playlist s))\<rparr>) = Inr s1"
  shows "player_inv (s1\<lparr>is_playing := True, current_icon := PauseBnt\<rparr>)"
proof (cases "AUDIO_OK s")
  case True
  with play_current_Inr [OF p] assms(1,2) show ?thesis
    by (simp add: player_inv_def)
next
  case False
  with play_current_Inr(6) [OF p]
  have "s1 = s\<lparr>index := j mod int (length (playlist s))\<rparr>" by simp
  with assms(1,2) False show ?thesis
    by (auto simp: player_inv_def)
qed

lemma player_inv_next_song:
  assumes "player_inv s" and "next_song e s = Inr s'"
  shows "player_inv s'"
proof (cases "playlist s = []")
  case True
  with assms show ?thesis by (simp add: next_song_def)
next
  case False
  with assms(2) obtain s1 where
    "play_current e (s\<lparr>index := (index s + 1) mod int (length (playlist s))\<rparr>) = Inr s1"
    and "s' = s1\<lparr>is_playing := True, current_icon := PauseBnt\<rparr>"
    by (auto simp: next_song_def then_do_def split: sum.splits)
  with player_inv_move [OF assms(1) False] show ?thesis by simp
qed

lemma player_inv_previous_song:
  assumes "player_inv s" and "previous_song e s = Inr s'"
  shows "player_inv s'"
proof (cases "playlist s = []")
  case True
  with assms show ?thesis by (simp add: previous_song_def)
next
  case False
  with assms(2) obtain s1 where
    "play_current e (s\<lparr>index := (index s - 1) mod int (length (playlist s))\<rparr>) = Inr s1"
    and "s' = s1\<lparr>is_playing := True, current_icon := PauseBnt\<rparr>"
    by (auto simp: previous_song_def then_do_def split: sum.splits)
  with player_inv_move [OF assms(1) False] show ?thesis by simp
qed

lemma player_inv_replay:
  assumes "player_inv s" and p: "play_current e s = Inr s1"
  shows "player_inv (s1\<lparr>is_playing := True, current_icon := ic\<rparr>)"
    and "player_inv (s1\<lparr>window_icon := ic, current_icon := ic'\<rparr>)"
proof -
  from play_current_Inr(7) [OF p] have ne: "playlist s \<noteq> []"
    by (auto simp: py_index_def Let_def split: if_splits)
  show "player_inv (s1\<lparr>is_playing := True, current_icon := ic\<rparr>)"
  proof (cases "AUDIO_OK s")
    case True
    with play_current_Inr [OF p] assms(1) ne show ?thesis
      by (simp add: player_inv_def)
  next
    case False
    with play_current_Inr(6) [OF p] assms(1) ne show ?thesis
      by (auto simp: player_inv_def)
  qed
  show "player_inv (s1\<lparr>window_icon := ic, current_icon := ic'\<rparr>)"
  proof (cases "AUDIO_OK s")
    case True
    with play_current_Inr [OF p] assms(1) ne show ?thesis
      by (simp add: player_inv_def)
  next
    case False
    with play_current_Inr(6) [OF p] assms(1) ne show ?thesis
      by (auto simp: player_inv_def)
  qed
qed

lemma player_inv_toggle_play_pause:
  assumes "player_inv s" and "toggle_play_pause e s = Inr s'"
  shows "player_inv s'"
proof (cases "playlist s = []")
  case True
  with assms show ?thesis by (simp add: toggle_play_pause_def)
next
  case ne: False
  show ?thesis
  proof (cases "is_playing s")
    case True
    with ne assms show ?thesis
      by (auto simp: toggle_play_pause_def pause_music_def then_do_def backend_call_def
            player_inv_def Let_def split: if_splits)
  next
    case np: False
    show ?thesis
    proof (cases "paused s")
      case False
      with ne np assms(2) obtain t s2 where
        t: "t = s \<or> (\<exists>x. play_current e s = Inl (x, t))"
        and p: "play_current e t = Inr s2"
        and s': "s' = s2\<lparr>is_playing := True, current_icon := PauseBnt\<rparr>"
        by (auto simp: toggle_play_pause_def then_do_def Let_def split: sum.splits)
      from t assms(1) have "player_inv t"
        by (auto dest: play_current_Inl)
      from player_inv_replay(1) [OF this p] s' show ?thesis by simp
    next
      case True
      show ?thesis
      proof (cases "unpause_ok e")
        case True
        with ne np \<open>paused s\<close> assms show ?thesis
          by (auto simp: toggle_play_pause_def then_do_def backend_call_def player_inv_def Let_def)
      next
        case False
        let ?t = "s\<lparr>backend_calls := backend_calls s @ [Unpause]\<rparr>"
        from False ne np \<open>paused s\<close> assms(2) obtain s2 where
          p: "play_current e ?t = Inr s2" and s': "s' = s2\<lparr>is_playing := True, current_icon := PauseBnt\<rparr>"
          by (auto simp: toggle_play_pause_def then_do_def backend_call_def Let_def split: sum.splits)
        from assms(1) have "player_inv ?t" by (simp add: player_inv_def)
        from player_inv_replay(1) [OF this p] s' show ?thesis by simp
      qed
    qed
  qed
qed

lemma player_inv_adjust_song:
  assumes "player_inv s" and "adjust_song e v s = Inr s'"
  shows "player_inv s'"
  using assms
  by (auto simp: adjust_song_def then_do_def backend_call_def player_inv_def Let_def
        split: if_splits)

lemma player_inv_change_volume:
  assumes "player_inv s" and "change_volume e v s = Inr s'"
  shows "player_inv s'"
  using assms
  by (auto simp: change_volume_def backend_call_def player_inv_def Let_def split: if_splits)

lemma player_inv_on_song_end:
  assumes "player_inv s" and "on_song_end e s = Inr s'"
  shows "player_inv s'"
proof -
  consider "loop_mode s = 2" | "loop_mode s = 1" | "loop_mode s \<noteq> 2" "loop_mode s \<noteq> 1"
    by blast
  then show ?thesis
  proof cases
    case 1
    with assms(2) obtain s1 where
      "play_current e s = Inr s1" and "s' = s1\<lparr>window_icon := PauseBnt, current_icon := PauseBnt\<rparr>"
      by (auto simp: on_song_end_def then_do_def split: sum.splits)
    with player_inv_replay(2) [OF assms(1)] show ?thesis by simp
  next
    case 2
    with assms player_inv_next_song show ?thesis by (simp add: on_song_end_def)
  next
    case 3
    with assms show ?thesis by (auto simp: on_song_end_def player_inv_def)
  qed
qed

lemma player_inv_step:
  assumes "player_inv s" and "step e i s = Inr s'"
  shows "player_inv s'"
proof (cases i)
  case (AddSongs files)
  with assms player_inv_add_songs show ?thesis by simp
next
  case TogglePlayPause
  with assms player_inv_toggle_play_pause show ?thesis by simp
next
  case NextSong
  with assms player_inv_next_song show ?thesis by simp
next
  case PreviousSong
  with assms player_inv_previous_song show ?thesis by simp
next
  case (AdjustSong v)
  with assms player_inv_adjust_song show ?thesis by simp
next
  case (ChangeVolume v)
  with assms player_inv_change_volume show ?thesis by simp
next
  case ToggleLoopMode
  with assms show ?thesis by (auto simp: toggle_loop_mode_def player_inv_def)
next
  case SongEnd
  with assms player_inv_on_song_end show ?thesis by simp
next
  case UpdatePosition
  with assms show ?thesis
    by (cases "playlist s \<noteq> [] \<and> song_length s > 0")
       (auto simp: update_current_position_def player_inv_def)
qed

lemma player_inv_run:
  "player_inv s \<Longrightarrow> run tr s = Inr s' \<Longrightarrow> player_inv s'"
proof (induction tr arbitrary: s)
  case Nil
  then show ?case by simp
next
  case (Cons a tr)
  obtain e i where a: "a = (e, i)" by (cases a)
  with Cons.prems(2) obtain s1 where st: "step e i s = Inr s1" and r: "run tr s1 = Inr s'"
    by (auto split: sum.splits)
  from player_inv_step [OF Cons.prems(1) st] have "player_inv s1" .
  from Cons.IH [OF this r] show ?case .
qed

text \<open>
  In every state a run of the event loop returns in, the flags \<open>is_playing\<close> and
  \<open>paused\<close> are not both set, \<open>paused\<close> is set only under \<open>AUDIO_OK\<close>, and when a flag is
  set the playlist is not empty and the index lies in \<open>[0, len(playlist))\<close>. The state
  a raising call leaves behind is another matter, see \<open>add_songs\<close> below.
\<close>

lemma player_inv_reached:
  assumes "run tr (init ok ic) = Inr s"
  shows "\<not> (is_playing s \<and> paused s)" and "paused s \<longrightarrow> AUDIO_OK s"
    and "is_playing s \<or> paused s \<longrightarrow>
          playlist s \<noteq> [] \<and> 0 \<le> index s \<and> index s < int (length (playlist s))"
  using player_inv_run [OF player_inv_init assms]
  by (auto simp: player_inv_def)

subsection \<open>The position clock\<close>

lemma clock_inv_backend_calls [simp]:
  "clock_inv (s\<lparr>backend_calls := cs\<rparr>) = clock_inv s"
  by (simp add: clock_inv_def)

lemma song_length_song_meta_data:
  assumes "lengths_nonneg e" and "0 \<le> song_length s"
  shows "0 \<le> song_length (song_meta_data e s)"
  using assms
  by (auto simp: song_meta_data_def lengths_nonneg_def py_int_def Let_def split: option.splits)

lemma clock_inv_play_music:
  assumes "lengths_nonneg e" and "clock_inv s" and "play_music e song s = Inr s'"
  shows "clock_inv s'"
proof (cases "AUDIO_OK s")
  case False
  with assms show ?thesis by (simp add: play_music_def)
next
  case True
  with assms(3) obtain t where
    s': "s' = song_meta_data e t" and t: "seek_offset t = 0" "song_length t = song_length s"
    by (auto simp: play_music_def then_do_def backend_call_def Let_def split: if_splits)
  from assms(2) t have "0 \<le> song_length t" by (simp add: clock_inv_def)
  from song_length_song_meta_data [OF assms(1) this] t show ?thesis
    by (simp add: clock_inv_def s')
qed

lemma clock_inv_play_current:
  assumes "lengths_nonneg e" and "clock_inv s" and "play_current e s = Inr s'"
  shows "clock_inv s'"
  using assms clock_inv_play_music [of e s _ s']
  by (auto simp: play_current_def split: option.splits)

lemma clock_inv_play_current_flags:
  assumes "lengths_nonneg e" and "clock_inv s" and "play_current e s = Inr s'"
  shows "clock_inv (s'\<lparr>is_playing := b, current_icon := ic\<rparr>)"
    and "clock_inv (s'\<lparr>window_icon := ic', current_icon := ic\<rparr>)"
  using clock_inv_play_current [OF assms] by (simp_all add: clock_inv_def)

lemma clock_inv_add_songs:
  assumes "lengths_nonneg e" and "clock_inv s" and "add_songs e files s = Inr s'"
  shows "clock_inv s'"
proof (cases "files = []")
  case True
  with assms show ?thesis by (simp add: add_songs_def)
next
  case False
  with assms(3) obtain s1 where
    p: "play_current e (s\<lparr>playlist := files\<rparr>) = Inr s1"
    and s': "s' = s1\<lparr>is_playing := True, current_icon := PauseBnt\<rparr>"
    by (auto simp: add_songs_def then_do_def split: sum.splits)
  from assms(2) have "clock_inv (s\<lparr>playlist := files\<rparr>)" by (simp add: clock_inv_def)
  from clock_inv_play_current_flags(1) [OF assms(1) this p] s' show ?thesis by simp
qed

lemma clock_inv_next_song:
  assumes "lengths_nonneg e" and "clock_inv s" and "next_song e s = Inr s'"
  shows "clock_inv s'"
proof (cases "playlist s = []")
  case True
  with assms show ?thesis by (simp add: next_song_def)
next
  case False
  with assms(3) obtain s1 where
    p: "play_current e (s\<lparr>index := (index s + 1) mod int (length (playlist s))\<rparr>) = Inr s1"
    and s': "s' = s1\<lparr>is_playing := True, current_icon := PauseBnt\<rparr>"
    by (auto simp: next_song_def then_do_def split: sum.splits)
  from assms(2) have "clock_inv (s\<lparr>index := (index s + 1) mod int (length (playlist s))\<rparr>)"
    by (simp add: clock_inv_def)
  from clock_inv_play_current_flags(1) [OF assms(1) this p] s' show ?thesis by simp
qed

lemma clock_inv_previous_song:
  assumes "lengths_nonneg e" and "clock_inv s" and "previous_song e s = Inr s'"
  shows "clock_inv s'"
proof (cases "playlist s = []")
  case True
  with assms show ?thesis by (simp add: previous_song_def)
next
  case False
  with assms(3) obtain s1 where
    p: "play_current e (s\<lparr>index := (index s - 1) mod int (length (playlist s))\<rparr>) = Inr s1"
    and s': "s' = s1\<lparr>is_playing := True, current_icon := PauseBnt\<rparr>"
    by (auto simp: previous_song_def then_do_def split: sum.splits)
  from assms(2) have "clock_inv (s\<lparr>index := (index s - 1) mod int (length (playlist s))\<rparr>)"
    by (simp add: clock_inv_def)
  from clock_inv_play_current_flags(1) [OF assms(1) this p] s' show ?thesis by simp
qed

lemma toggle_play_pause_start:
  assumes "playlist s \<noteq> []" and "\<not> is_playing s" and "toggle_play_pause e s = Inr s'"
  shows "(paused s \<and> unpause_ok e
            \<and> s' = s\<lparr>backend_calls := backend_calls s @ [Unpause], paused := False,
                     is_playing := True, current_icon := PauseBnt\<rparr>)
         \<or> (\<exists>cs s2. play_current e (s\<lparr>backend_calls := cs\<rparr>) = Inr s2
                \<and> s' = s2\<lparr>is_playing := True, current_icon := PauseBnt\<rparr>)"
proof (cases "paused s")
  case False
  with assms obtain t s2 where
    t: "t = s \<or> (\<exists>x. play_current e s = Inl (x, t))"
    and p: "play_current e t = Inr s2"
    and s': "s' = s2\<lparr>is_playing := True, current_icon := PauseBnt\<rparr>"
    by (auto simp: toggle_play_pause_def then_do_def Let_def split: sum.splits)
  from t obtain cs where "t = s\<lparr>backend_calls := cs\<rparr>"
  proof
    assume "t = s"
    then have "t = s\<lparr>backend_calls := backend_calls s\<rparr>" by simp
    then show ?thesis by (rule that)
  next
    assume "\<exists>x. play_current e s = Inl (x, t)"
    then show ?thesis using that by (auto dest: play_current_Inl)
  qed
  with p s' show ?thesis by blast
next
  case True
  show ?thesis
  proof (cases "unpause_ok e")
    case True
    with assms \<open>paused s\<close> show ?thesis
      by (simp add: toggle_play_pause_def then_do_def backend_call_def Let_def)
  next
    case False
    with assms \<open>paused s\<close> obtain s2 where
      "play_current e (s\<lparr>backend_calls := backend_calls s @ [Unpause]\<rparr>) = Inr s2"
      and "s' = s2\<lparr>is_playing := True, current_icon := PauseBnt\<rparr>"
      by (auto simp: toggle_play_pause_def then_do_def backend_call_def Let_def split: sum.splits)
    then show ?thesis by blast
  qed
qed

lemma clock_inv_toggle_play_pause:
  assumes "lengths_nonneg e" and "clock_inv s" and "toggle_play_pause e s = Inr s'"
  shows "clock_inv s'"
proof -
  consider "playlist s = []" | "playlist s \<noteq> []" "is_playing s"
    | "playlist s \<noteq> []" "\<not> is_playing s"
    by blast
  then show ?thesis
  proof cases
    case 1
    with assms show ?thesis by (simp add: toggle_play_pause_def)
  next
    case 2
    with assms(2,3) show ?thesis
      by (auto simp: toggle_play_pause_def pause_music_def then_do_def backend_call_def
            clock_inv_def Let_def split: if_splits)
  next
    case 3
    from toggle_play_pause_start [OF 3 assms(3)] show ?thesis
    proof
      assume "paused s \<and> unpause_ok e
            \<and> s' = s\<lparr>backend_calls := backend_calls s @ [Unpause], paused := False,
                     is_playing := True, current_icon := PauseBnt\<rparr>"
      with assms(2) show ?thesis by (simp add: clock_inv_def)
    next
      assume "\<exists>cs s2. play_current e (s\<lparr>backend_calls := cs\<rparr>) = Inr s2
                \<and> s' = s2\<lparr>is_playing := True, current_icon := PauseBnt\<rparr>"
      then obtain cs s2 where
        p: "play_current e (s\<lparr>backend_calls := cs\<rparr>) = Inr s2"
        and s': "s' = s2\<lparr>is_playing := True, current_icon := PauseBnt\<rparr>"
        by blast
      from assms(2) have "clock_inv (s\<lparr>backend_calls := cs\<rparr>)" by simp
      from clock_inv_play_current_flags(1) [OF assms(1) this p] s' show ?thesis by simp
    qed
  qed
qed

lemma fraction_le:
  fixes v :: real
  assumes "v \<le> 1" and "0 \<le> l"
  shows "v * real_of_int l \<le> real_of_int l"
  using mult_right_mono [of v 1 "real_of_int l"] assms by simp

lemma clock_inv_adjust_song:
  assumes "v \<le> 1" and "clock_inv s" and "adjust_song e v s = Inr s'"
  shows "clock_inv s'"
proof (cases "playlist s = [] \<or> song_length s = 0")
  case True
  with assms show ?thesis by (auto simp: adjust_song_def)
next
  case False
  from assms(2) have "0 \<le> song_length s" by (simp add: clock_inv_def)
  from fraction_le [OF assms(1) this]
  have le: "v * real_of_int (song_length s) \<le> real_of_int (song_length s)" .
  from False assms(3)
  have "song_length s' = song_length s \<and> seek_offset s' = v * real_of_int (song_length s)"
    by (auto simp: adjust_song_def then_do_def backend_call_def Let_def split: if_splits)
  with le \<open>0 \<le> song_length s\<close> show ?thesis by (simp add: clock_inv_def)
qed

lemma clock_inv_on_song_end:
  assumes "lengths_nonneg e" and "clock_inv s" and "on_song_end e s = Inr s'"
  shows "clock_inv s'"
proof -
  consider "loop_mode s = 2" | "loop_mode s = 1" | "loop_mode s \<noteq> 2" "loop_mode s \<noteq> 1"
    by blast
  then show ?thesis
  proof cases
    case 1
    with assms(3) obtain s1 where
      p: "play_current e s = Inr s1"
      and s': "s' = s1\<lparr>window_icon := PauseBnt, current_icon := PauseBnt\<rparr>"
      by (auto simp: on_song_end_def then_do_def split: sum.splits)
    from clock_inv_play_current_flags(2) [OF assms(1,2) p] s' show ?thesis by simp
  next
    case 2
    with assms clock_inv_next_song show ?thesis by (simp add: on_song_end_def)
  next
    case 3
    with assms show ?thesis by (auto simp: on_song_end_def clock_inv_def)
  qed
qed

lemma clock_inv_step:
  assumes "wf_event (e, i)" and "clock_inv s" and "step e i s = Inr s'"
  shows "clock_inv s'"
proof -
  from assms(1) have ln: "lengths_nonneg e" by (simp add: wf_event_def)
  show ?thesis
  proof (cases i)
    case (AddSongs files)
    with assms clock_inv_add_songs [OF ln] show ?thesis by simp
  next
    case TogglePlayPause
    with assms clock_inv_toggle_play_pause [OF ln] show ?thesis by simp
  next
    case NextSong
    with assms clock_inv_next_song [OF ln] show ?thesis by simp
  next
    case PreviousSong
    with assms clock_inv_previous_song [OF ln] show ?thesis by simp
  next
    case (AdjustSong v)
    with assms(1) have "v \<le> 1" by (simp add: wf_event_def)
    from clock_inv_adjust_song [OF this assms(2)] assms(3) AdjustSong show ?thesis by simp
  next
    case (ChangeVolume v)
    with assms show ?thesis
      by (auto simp: change_volume_def backend_call_def Let_def split: if_splits)
  next
    case ToggleLoopMode
    with assms show ?thesis by (auto simp: toggle_loop_mode_def clock_inv_def)
  next
    case SongEnd
    with assms clock_inv_on_song_end [OF ln] show ?thesis by simp
  next
    case UpdatePosition
    with assms show ?thesis
      by (cases "playlist s \<noteq> [] \<and> song_length s > 0")
         (auto simp: update_current_position_def clock_inv_def)
  qed
qed

lemma clock_inv_run:
  "list_all wf_event tr \<Longrightarrow> clock_inv s \<Longrightarrow> run tr s = Inr s' \<Longrightarrow> clock_inv s'"
proof (induction tr arbitrary: s)
  case Nil
  then show ?case by simp
next
  case (Cons a tr)
  obtain e i where a: "a = (e, i)" by (cases a)
  with Cons.prems(3) obtain s1 where st: "step e i s = Inr s1" and r: "run tr s1 = Inr s'"
    by (auto split: sum.splits)
  from Cons.prems(1) a have w: "wf_event (e, i)" and ws: "list_all wf_event tr" by simp_all
  from clock_inv_step [OF w Cons.prems(2) st] have "clock_inv s1" .
  from Cons.IH [OF ws this r] show ?case .
qed

lemma clock_inv_init: "clock_inv (init ok ic)"
  by (simp add: clock_inv_def init_def)

lemma get_current_position_mono:
  "ticks e \<le> ticks e' \<Longrightarrow> get_current_position e s \<le> get_current_position e' s"
  by (simp add: get_current_position_def Let_def min_le_iff_disj divide_right_mono)

lemma lengths_nonneg_accepting_rd_a: "lengths_nonneg (accepting t rd_a)"
  by (simp add: lengths_nonneg_def accepting_def rd_a_def tagged_def)

text \<open>
  Claim C6. \<open>get_current_position\<close> returns \<open>seek_offset\<close> unchanged when the player is
  paused or stopped, and the minimum of \<open>seek_offset + (now - last_update_time) / 1000\<close> and
  \<open>song_length\<close> when it is playing. So the position never exceeds \<open>song_length\<close> while
  playing, it does not decrease as the tick counter advances, it is constant while paused,
  and in every state the event loop reaches on well-formed input it never exceeds
  \<open>song_length\<close>, whatever the status.
\<close>

theorem get_current_position_clock:
  "(\<not> is_playing s \<or> paused s \<longrightarrow> get_current_position e s = seek_offset s)
   \<and> (is_playing s \<and> \<not> paused s \<longrightarrow>
        get_current_position e s
          = min (seek_offset s + real_of_int (ticks e - last_update_time s) / 1000)
                (real_of_int (song_length s))
        \<and> get_current_position e s \<le> real_of_int (song_length s))
   \<and> (ticks e \<le> ticks e' \<longrightarrow> get_current_position e s \<le> get_current_position e' s)
   \<and> (paused s \<longrightarrow> get_current_position e s = get_current_position e' s)
   \<and> (list_all wf_event tr \<and> run tr (init ok ic) = Inr s \<longrightarrow>
        get_current_position e s \<le> real_of_int (song_length s))"
proof -
  have a: "\<not> is_playing s \<or> paused s \<longrightarrow> get_current_position e s = seek_offset s"
    by (simp add: get_current_position_def)
  have b: "is_playing s \<and> \<not> paused s \<longrightarrow>
        get_current_position e s
          = min (seek_offset s + real_of_int (ticks e - last_update_time s) / 1000)
                (real_of_int (song_length s))
        \<and> get_current_position e s \<le> real_of_int (song_length s)"
    by (simp add: get_current_position_def Let_def)
  have c: "ticks e \<le> ticks e' \<longrightarrow> get_current_position e s \<le> get_current_position e' s"
    using get_current_position_mono by blast
  have d: "paused s \<longrightarrow> get_current_position e s = get_current_position e' s"
    by (simp add: get_current_position_def)
  have f: "list_all wf_event tr \<and> run tr (init ok ic) = Inr s \<longrightarrow>
        get_current_position e s \<le> real_of_int (song_length s)"
  proof
    assume h: "list_all wf_event tr \<and> run tr (init ok ic) = Inr s"
    with clock_inv_run [OF _ clock_inv_init] have "clock_inv s" by blast
    then show "get_current_position e s \<le> real_of_int (song_length s)"
      by (simp add: get_current_position_def clock_inv_def Let_def)
  qed
  from a b c d f show ?thesis by blast
qed

theorem get_current_position_clock_witness:
  "list_all wf_event [(accepting 0 rd_a, AddSongs [''a.mp3'']), (accepting 3000 rd_a, AdjustSong (1 / 2))]
   \<and> get_current_position (accepting 5000 rd_a)
        (final_state (run [(accepting 0 rd_a, AddSongs [''a.mp3'']),
                           (accepting 3000 rd_a, AdjustSong (1 / 2))] (init True PlayBnt))) = 102
   \<and> 102 \<le> get_current_position (accepting 900000 rd_a)
        (final_state (run [(accepting 0 rd_a, AddSongs [''a.mp3'']),
                           (accepting 3000 rd_a, AdjustSong (1 / 2))] (init True PlayBnt)))
   \<and> get_current_position (accepting 900000 rd_a)
        (final_state (run [(accepting 0 rd_a, AddSongs [''a.mp3'']),
                           (accepting 3000 rd_a, AdjustSong (1 / 2))] (init True PlayBnt))) \<le> 200
   \<and> get_current_position (accepting 900000 rd_a)
        (final_state (run [(accepting 0 rd_a, AddSongs [''a.mp3'']),
                           (accepting 3000 rd_a, AdjustSong (1 / 2)),
                           (accepting 4000 rd_a, TogglePlayPause)] (init True PlayBnt))) = 100"
proof -
  let ?tr = "[(accepting 0 rd_a, AddSongs [''a.mp3'']), (accepting 3000 rd_a, AdjustSong (1 / 2))]"
  let ?tr' = "[(accepting 0 rd_a, AddSongs [''a.mp3'']), (accepting 3000 rd_a, AdjustSong (1 / 2)),
               (accepting 4000 rd_a, TogglePlayPause)]"
  let ?s = "final_state (run ?tr (init True PlayBnt))"
  let ?p = "final_state (run ?tr' (init True PlayBnt))"
  let ?e = "accepting 5000 rd_a" and ?e' = "accepting 900000 rd_a"
  have w: "list_all wf_event ?tr" and w': "list_all wf_event ?tr'"
    by (simp_all add: wf_event_def lengths_nonneg_accepting_rd_a)
  have r: "run ?tr (init True PlayBnt) = Inr ?s" and r': "run ?tr' (init True PlayBnt) = Inr ?p"
    by (simp_all add: eval_defs str_nat.simps)
  have pl: "is_playing ?s \<and> \<not> paused ?s" and pa: "paused ?p"
    by (simp_all add: eval_defs str_nat.simps)
  have t: "ticks ?e \<le> ticks ?e'" by (simp add: accepting_def)
  have v1: "seek_offset ?s + real_of_int (ticks ?e - last_update_time ?s) / 1000 = 102"
    and v2: "real_of_int (song_length ?s) = 200" and v3: "seek_offset ?p = 100"
    by (simp_all add: eval_defs str_nat.simps)
  from get_current_position_clock [of ?s ?e ?e' ?tr True PlayBnt] pl t w r
  have a: "get_current_position ?e ?s
             = min (seek_offset ?s + real_of_int (ticks ?e - last_update_time ?s) / 1000)
                   (real_of_int (song_length ?s))"
    and b: "get_current_position ?e ?s \<le> get_current_position ?e' ?s"
    by blast+
  from get_current_position_clock [of ?s ?e' ?e ?tr True PlayBnt] w r
  have c: "get_current_position ?e' ?s \<le> real_of_int (song_length ?s)"
    by blast
  from get_current_position_clock [of ?p ?e' ?e ?tr' True PlayBnt] pa w' r'
  have d: "get_current_position ?e' ?p = seek_offset ?p" by blast
  from a v1 v2 have a': "get_current_position ?e ?s = 102" by simp
  from w a' b c d v2 v3 show ?thesis by simp
qed

subsection \<open>Next and previous\<close>

lemma index_forth_back:
  fixes i n :: int
  assumes "0 \<le> i" and "i < n"
  shows "((i + 1) mod n - 1) mod n = i" and "((i - 1) mod n + 1) mod n = i"
  using assms by (simp_all add: mod_diff_left_eq mod_add_left_eq)

lemma move_Inr:
  assumes "playlist s \<noteq> []"
    and "play_current e (s\<lparr>index := j mod int (length (playlist s))\<rparr>) = Inr s1"
    and "s' = s1\<lparr>is_playing := True, current_icon := PauseBnt\<rparr>"
  shows "index s' = j mod int (length (playlist s))" and "playlist s' = playlist s"
    and "AUDIO_OK s' = AUDIO_OK s" and "is_playing s'"
    and "(paused s \<longrightarrow> AUDIO_OK s) \<Longrightarrow> \<not> paused s'"
proof -
  let ?t = "s\<lparr>index := j mod int (length (playlist s))\<rparr>"
  from play_current_Inr(1-3) [OF assms(2)] assms(3)
  show "index s' = j mod int (length (playlist s))" and "playlist s' = playlist s"
    and "AUDIO_OK s' = AUDIO_OK s" and "is_playing s'"
    by simp_all
  assume h: "paused s \<longrightarrow> AUDIO_OK s"
  show "\<not> paused s'"
  proof (cases "AUDIO_OK s")
    case True
    with play_current_Inr(5) [OF assms(2)] assms(3) show ?thesis by simp
  next
    case False
    with play_current_Inr(6) [OF assms(2)] have "s1 = ?t" by simp
    with False h assms(3) show ?thesis by auto
  qed
qed

lemma next_song_Inr:
  assumes "playlist s \<noteq> []" and "next_song e s = Inr s'"
  shows "index s' = (index s + 1) mod int (length (playlist s))" and "playlist s' = playlist s"
    and "AUDIO_OK s' = AUDIO_OK s" and "is_playing s'"
    and "(paused s \<longrightarrow> AUDIO_OK s) \<Longrightarrow> \<not> paused s'"
proof -
  from assms obtain s1 where
    p: "play_current e (s\<lparr>index := (index s + 1) mod int (length (playlist s))\<rparr>) = Inr s1"
    and s': "s' = s1\<lparr>is_playing := True, current_icon := PauseBnt\<rparr>"
    by (auto simp: next_song_def then_do_def split: sum.splits)
  from move_Inr [OF assms(1) p s']
  show "index s' = (index s + 1) mod int (length (playlist s))" and "playlist s' = playlist s"
    and "AUDIO_OK s' = AUDIO_OK s" and "is_playing s'"
    and "(paused s \<longrightarrow> AUDIO_OK s) \<Longrightarrow> \<not> paused s'"
    by blast+
qed

lemma previous_song_Inr:
  assumes "playlist s \<noteq> []" and "previous_song e s = Inr s'"
  shows "index s' = (index s - 1) mod int (length (playlist s))" and "playlist s' = playlist s"
    and "AUDIO_OK s' = AUDIO_OK s" and "is_playing s'"
    and "(paused s \<longrightarrow> AUDIO_OK s) \<Longrightarrow> \<not> paused s'"
proof -
  from assms obtain s1 where
    p: "play_current e (s\<lparr>index := (index s - 1) mod int (length (playlist s))\<rparr>) = Inr s1"
    and s': "s' = s1\<lparr>is_playing := True, current_icon := PauseBnt\<rparr>"
    by (auto simp: previous_song_def then_do_def split: sum.splits)
  from move_Inr [OF assms(1) p s']
  show "index s' = (index s - 1) mod int (length (playlist s))" and "playlist s' = playlist s"
    and "AUDIO_OK s' = AUDIO_OK s" and "is_playing s'"
    and "(paused s \<longrightarrow> AUDIO_OK s) \<Longrightarrow> \<not> paused s'"
    by blast+
qed

lemma play_current_returns:
  assumes "0 \<le> index s" and "index s < int (length (playlist s))"
    and "\<forall>p. load_ok e p" and "play_ok e"
  shows "\<exists>s'. play_current e s = Inr s'"
  using assms
  by (simp add: play_current_def py_index_def play_music_def then_do_def backend_call_def Let_def)

lemma next_song_returns:
  assumes "\<forall>p. load_ok e p" and "play_ok e"
  shows "\<exists>s'. next_song e s = Inr s'"
proof (cases "playlist s = []")
  case True
  then show ?thesis by (simp add: next_song_def)
next
  case False
  let ?t = "s\<lparr>index := (index s + 1) mod int (length (playlist s))\<rparr>"
  from False have "0 \<le> index ?t" and "index ?t < int (length (playlist ?t))" by simp_all
  from play_current_returns [OF this assms] obtain s1 where "play_current e ?t = Inr s1" ..
  with False show ?thesis by (simp add: next_song_def then_do_def)
qed

lemma previous_song_returns:
  assumes "\<forall>p. load_ok e p" and "play_ok e"
  shows "\<exists>s'. previous_song e s = Inr s'"
proof (cases "playlist s = []")
  case True
  then show ?thesis by (simp add: previous_song_def)
next
  case False
  let ?t = "s\<lparr>index := (index s - 1) mod int (length (playlist s))\<rparr>"
  from False have "0 \<le> index ?t" and "index ?t < int (length (playlist ?t))" by simp_all
  from play_current_returns [OF this assms] obtain s1 where "play_current e ?t = Inr s1" ..
  with False show ?thesis by (simp add: previous_song_def then_do_def)
qed

text \<open>
  Claim C8. On a non-empty playlist with the index in \<open>[0, len)\<close>, \<open>next_song\<close> followed by
  \<open>previous_song\<close>, and \<open>previous_song\<close> followed by \<open>next_song\<close>, give back the index they
  started from; each of the calls leaves the status Playing; \<open>next_song\<close> on the last index
  gives index 0. The calls return whenever the backend accepts \<open>load\<close> and \<open>play\<close>
  (a rejected \<open>load\<close> is raised out of the method). The state is one in which \<open>paused\<close>
  is set only under \<open>AUDIO_OK\<close>, as in every state a run returns in
  (\<open>player_inv_reached\<close>).
\<close>

theorem next_previous_inverse:
  assumes "playlist s \<noteq> []" and "0 \<le> index s" and "index s < int (length (playlist s))"
    and "paused s \<longrightarrow> AUDIO_OK s"
  shows "(next_song e1 s = Inr s1 \<and> previous_song e2 s1 = Inr s2 \<longrightarrow>
            index s2 = index s \<and> status_of s1 = Playing \<and> status_of s2 = Playing)
       \<and> (previous_song e1 s = Inr t1 \<and> next_song e2 t1 = Inr t2 \<longrightarrow>
            index t2 = index s \<and> status_of t1 = Playing \<and> status_of t2 = Playing)
       \<and> (next_song e1 s = Inr s1 \<and> index s = int (length (playlist s)) - 1 \<longrightarrow> index s1 = 0)
       \<and> ((\<forall>p. load_ok e1 p) \<and> play_ok e1 \<longrightarrow>
            (\<exists>u. next_song e1 s = Inr u) \<and> (\<exists>u. previous_song e1 s = Inr u))"
proof -
  let ?n = "int (length (playlist s))"
  have a: "index s2 = index s \<and> status_of s1 = Playing \<and> status_of s2 = Playing"
    if n: "next_song e1 s = Inr s1" and p: "previous_song e2 s1 = Inr s2"
  proof -
    note n1 = next_song_Inr [OF assms(1) n]
    from n1(2) assms(1) have ne: "playlist s1 \<noteq> []" by simp
    note p1 = previous_song_Inr [OF ne p]
    from n1(5) [OF assms(4)] have np: "\<not> paused s1" .
    then have "paused s1 \<longrightarrow> AUDIO_OK s1" by simp
    from p1(5) [OF this] have np2: "\<not> paused s2" .
    from p1(1) n1(1,2) index_forth_back(1) [OF assms(2,3)] have "index s2 = index s" by simp
    with n1(4) p1(4) np np2 show ?thesis by (simp add: status_of_def)
  qed
  have b: "index t2 = index s \<and> status_of t1 = Playing \<and> status_of t2 = Playing"
    if p: "previous_song e1 s = Inr t1" and n: "next_song e2 t1 = Inr t2"
  proof -
    note p1 = previous_song_Inr [OF assms(1) p]
    from p1(2) assms(1) have ne: "playlist t1 \<noteq> []" by simp
    note n1 = next_song_Inr [OF ne n]
    from p1(5) [OF assms(4)] have np: "\<not> paused t1" .
    then have "paused t1 \<longrightarrow> AUDIO_OK t1" by simp
    from n1(5) [OF this] have np2: "\<not> paused t2" .
    from n1(1) p1(1,2) index_forth_back(2) [OF assms(2,3)] have "index t2 = index s" by simp
    with n1(4) p1(4) np np2 show ?thesis by (simp add: status_of_def)
  qed
  have c: "index s1 = 0" if n: "next_song e1 s = Inr s1" and l: "index s = ?n - 1"
    using next_song_Inr(1) [OF assms(1) n] l by simp
  have d: "(\<exists>u. next_song e1 s = Inr u) \<and> (\<exists>u. previous_song e1 s = Inr u)"
    if "\<forall>p. load_ok e1 p" and "play_ok e1"
    using next_song_returns [OF that] previous_song_returns [OF that] by blast
  from a b c d show ?thesis by blast
qed

theorem next_previous_inverse_witness:
  "playlist (audio_player_with_playlist\<lparr>index := 2\<rparr>) \<noteq> []
   \<and> next_song (accepting 1000 rd_a) (audio_player_with_playlist\<lparr>index := 2\<rparr>)
       = Inr (final_state (next_song (accepting 1000 rd_a) (audio_player_with_playlist\<lparr>index := 2\<rparr>)))
   \<and> index (final_state (next_song (accepting 1000 rd_a) (audio_player_with_playlist\<lparr>index := 2\<rparr>))) = 0
   \<and> index (final_state (previous_song (accepting 2000 rd_a)
        (final_state (next_song (accepting 1000 rd_a) (audio_player_with_playlist\<lparr>index := 2\<rparr>))))) = 2
   \<and> index (final_state (next_song (accepting 2000 rd_a)
        (final_state (previous_song (accepting 1000 rd_a) (audio_player_with_playlist\<lparr>index := 2\<rparr>))))) = 2"
proof -
  let ?s = "audio_player_with_playlist\<lparr>index := 2\<rparr>"
  let ?e1 = "accepting 1000 rd_a" and ?e2 = "accepting 2000 rd_a"
  let ?s1 = "final_state (next_song ?e1 ?s)"
  let ?s2 = "final_state (previous_song ?e2 ?s1)"
  let ?t1 = "final_state (previous_song ?e1 ?s)"
  let ?t2 = "final_state (next_song ?e2 ?t1)"
  have h1: "playlist ?s \<noteq> []" and h2: "0 \<le> index ?s"
    and h3: "index ?s < int (length (playlist ?s))" and h4: "paused ?s \<longrightarrow> AUDIO_OK ?s"
    by (simp_all add: eval_defs)
  have n1: "next_song ?e1 ?s = Inr ?s1" by (simp add: eval_defs str_nat.simps)
  have p2: "previous_song ?e2 ?s1 = Inr ?s2" by (simp add: eval_defs str_nat.simps)
  have p1: "previous_song ?e1 ?s = Inr ?t1" by (simp add: eval_defs str_nat.simps)
  have n2: "next_song ?e2 ?t1 = Inr ?t2" by (simp add: eval_defs str_nat.simps)
  have l: "index ?s = int (length (playlist ?s)) - 1" by (simp add: eval_defs)
  have ok: "(\<forall>p. load_ok ?e1 p) \<and> play_ok ?e1" by (simp add: accepting_def)
  from next_previous_inverse [OF h1 h2 h3 h4, of ?e1 ?s1 ?e2 ?s2 ?t1 ?t2] n1 p2 p1 n2 l ok
  have "index ?s2 = index ?s \<and> index ?t2 = index ?s \<and> index ?s1 = 0" by blast
  moreover have "index ?s = 2" by (simp add: eval_defs)
  ultimately show ?thesis using h1 n1 by simp
qed

subsection \<open>The end of a song\<close>

text \<open>
  Claim C9. With loop mode 0 (off), \<open>on_song_end\<close> returns, leaves the status Stopped and
  the offset 0 and sends no command to the backend; with loop mode 1 (loop all) it is
  \<open>next_song\<close>: it returns whenever the backend accepts \<open>load\<close> and \<open>play\<close>, and on a
  non-empty playlist the index has then advanced modulo the length and the status is
  Playing (in a state where \<open>paused\<close> is set only under \<open>AUDIO_OK\<close>).
\<close>

theorem on_song_end_dispatch:
  "(loop_mode s = 0 \<longrightarrow>
      (\<exists>s'. on_song_end e s = Inr s' \<and> status_of s' = Stopped \<and> seek_offset s' = 0
         \<and> backend_calls s' = backend_calls s \<and> playlist s' = playlist s \<and> index s' = index s))
   \<and> (loop_mode s = 1 \<longrightarrow> on_song_end e s = next_song e s)
   \<and> (loop_mode s = 1 \<and> playlist s \<noteq> [] \<and> (paused s \<longrightarrow> AUDIO_OK s) \<and> on_song_end e s = Inr s' \<longrightarrow>
        index s' = (index s + 1) mod int (length (playlist s)) \<and> status_of s' = Playing)
   \<and> (loop_mode s = 1 \<and> (\<forall>p. load_ok e p) \<and> play_ok e \<longrightarrow> (\<exists>u. on_song_end e s = Inr u))
   \<and> (loop_mode s = 1 \<and> playlist s \<noteq> [] \<and> (paused s \<longrightarrow> AUDIO_OK s)
        \<and> (\<forall>p. load_ok e p) \<and> play_ok e \<longrightarrow>
        (\<exists>u. on_song_end e s = Inr u
           \<and> index u = (index s + 1) mod int (length (playlist s)) \<and> status_of u = Playing))"
proof -
  have a: "loop_mode s = 0 \<longrightarrow>
      (\<exists>s'. on_song_end e s = Inr s' \<and> status_of s' = Stopped \<and> seek_offset s' = 0
         \<and> backend_calls s' = backend_calls s \<and> playlist s' = playlist s \<and> index s' = index s)"
    by (simp add: on_song_end_def status_of_def)
  have b: "loop_mode s = 1 \<longrightarrow> on_song_end e s = next_song e s"
    by (simp add: on_song_end_def)
  have c: "index t = (index s + 1) mod int (length (playlist s)) \<and> status_of t = Playing"
    if "loop_mode s = 1" and ne: "playlist s \<noteq> []" and pa: "paused s \<longrightarrow> AUDIO_OK s"
      and "on_song_end e s = Inr t" for t
  proof -
    from that have n: "next_song e s = Inr t" by (simp add: on_song_end_def)
    from next_song_Inr(1,4) [OF ne n] next_song_Inr(5) [OF ne n pa] show ?thesis
      by (simp add: status_of_def)
  qed
  have d: "\<exists>u. on_song_end e s = Inr u"
    if "loop_mode s = 1" and "\<forall>p. load_ok e p" and "play_ok e"
    using next_song_returns [OF that(2,3), of s] that(1) by (simp add: on_song_end_def)
  have f: "\<exists>u. on_song_end e s = Inr u
           \<and> index u = (index s + 1) mod int (length (playlist s)) \<and> status_of u = Playing"
    if m: "loop_mode s = 1" and ne: "playlist s \<noteq> []" and pa: "paused s \<longrightarrow> AUDIO_OK s"
      and ok: "\<forall>p. load_ok e p" "play_ok e"
  proof -
    from d [OF m ok] obtain u where u: "on_song_end e s = Inr u" ..
    from c [OF m ne pa u] u show ?thesis by blast
  qed
  from a b c [of s'] d f show ?thesis by blast
qed

theorem on_song_end_dispatch_witness:
  "loop_mode (audio_player_with_playlist\<lparr>is_playing := True, seek_offset := 175\<rparr>) = 0
   \<and> on_song_end (accepting 9000 rd_a)
        (audio_player_with_playlist\<lparr>is_playing := True, seek_offset := 175\<rparr>)
       = Inr (final_state (on_song_end (accepting 9000 rd_a)
           (audio_player_with_playlist\<lparr>is_playing := True, seek_offset := 175\<rparr>)))
   \<and> status_of (final_state (on_song_end (accepting 9000 rd_a)
        (audio_player_with_playlist\<lparr>is_playing := True, seek_offset := 175\<rparr>))) = Stopped
   \<and> loop_mode (audio_player_with_playlist\<lparr>index := 2, loop_mode := 1\<rparr>) = 1
   \<and> on_song_end (accepting 9000 rd_a) (audio_player_with_playlist\<lparr>index := 2, loop_mode := 1\<rparr>)
       = next_song (accepting 9000 rd_a) (audio_player_with_playlist\<lparr>index := 2, loop_mode := 1\<rparr>)
   \<and> on_song_end (accepting 9000 rd_a) (audio_player_with_playlist\<lparr>index := 2, loop_mode := 1\<rparr>)
       = Inr (final_state (on_song_end (accepting 9000 rd_a)
           (audio_player_with_playlist\<lparr>index := 2, loop_mode := 1\<rparr>)))
   \<and> index (final_state (on_song_end (accepting 9000 rd_a)
        (audio_player_with_playlist\<lparr>index := 2, loop_mode := 1\<rparr>))) = 0
   \<and> status_of (final_state (on_song_end (accepting 9000 rd_a)
        (audio_player_with_playlist\<lparr>index := 2, loop_mode := 1\<rparr>))) = Playing"
proof -
  let ?e = "accepting 9000 rd_a"
  let ?s = "audio_player_with_playlist\<lparr>is_playing := True, seek_offset := 175\<rparr>"
  let ?t = "audio_player_with_playlist\<lparr>index := 2, loop_mode := 1\<rparr>"
  have m0: "loop_mode ?s = 0" and m1: "loop_mode ?t = 1" by (simp_all add: eval_defs)
  have ne: "playlist ?t \<noteq> []" and pa: "paused ?t \<longrightarrow> AUDIO_OK ?t" by (simp_all add: eval_defs)
  have ok: "(\<forall>p. load_ok ?e p) \<and> play_ok ?e" by (simp add: accepting_def)
  from on_song_end_dispatch [of ?s ?e] m0
  obtain s' where "on_song_end ?e ?s = Inr s'" and "status_of s' = Stopped" by blast
  then have a: "on_song_end ?e ?s = Inr (final_state (on_song_end ?e ?s))"
    and a': "status_of (final_state (on_song_end ?e ?s)) = Stopped"
    by (simp_all add: final_state_def)
  from on_song_end_dispatch [of ?t ?e] m1 ne pa ok
  obtain u where u: "on_song_end ?e ?t = Inr u"
    and ui: "index u = (index ?t + 1) mod int (length (playlist ?t))"
    and us: "status_of u = Playing"
    by blast
  from on_song_end_dispatch [of ?t ?e] m1
  have b: "on_song_end ?e ?t = next_song ?e ?t" by blast
  from u have fs: "final_state (on_song_end ?e ?t) = u" by (simp add: final_state_def)
  have z: "(index ?t + 1) mod int (length (playlist ?t)) = 0" by (simp add: eval_defs)
  from u ui us fs z have c: "on_song_end ?e ?t = Inr (final_state (on_song_end ?e ?t))"
    and c': "index (final_state (on_song_end ?e ?t)) = 0"
    and c'': "status_of (final_state (on_song_end ?e ?t)) = Playing"
    by simp_all
  from m0 a a' m1 b c c' c'' show ?thesis by blast
qed

subsection \<open>Where the methods part from their documentation\<close>

text \<open>
  Claim C1. Loading a non-empty selection replaces the playlist, sets the index to 0 and
  plays the first track of the new list. \<open>add_songs\<close> replaces the playlist but keeps the
  index it had: after two calls of \<open>next_song\<close> on three songs the index is 2, and loading
  three new songs then plays the third of them with the index still 2, while loading a
  single song raises \<open>IndexError\<close>.
\<close>

theorem add_songs_keeps_old_index:
  "map_option index (returned (run
     [(accepting 0 rd_a, AddSongs [''a.mp3'', ''b.mp3'', ''c.mp3'']),
      (accepting 1000 rd_a, NextSong),
      (accepting 2000 rd_a, NextSong),
      (accepting 3000 rd_a, AddSongs [''x.mp3'', ''y.mp3'', ''z.mp3''])]
     (init True PlayBnt))) = Some 2
   \<and> map_option backend_calls (returned (run
     [(accepting 0 rd_a, AddSongs [''a.mp3'', ''b.mp3'', ''c.mp3'']),
      (accepting 1000 rd_a, NextSong),
      (accepting 2000 rd_a, NextSong),
      (accepting 3000 rd_a, AddSongs [''x.mp3'', ''y.mp3'', ''z.mp3''])]
     (init True PlayBnt)))
      = Some [Load ''a.mp3'', Play, Load ''b.mp3'', Play, Load ''c.mp3'', Play, Load ''z.mp3'', Play]
   \<and> raised (run
     [(accepting 0 rd_a, AddSongs [''a.mp3'', ''b.mp3'', ''c.mp3'']),
      (accepting 1000 rd_a, NextSong),
      (accepting 2000 rd_a, NextSong),
      (accepting 3000 rd_a, AddSongs [''x.mp3''])]
     (init True PlayBnt)) = Some IndexError"
  by (simp add: eval_defs str_nat.simps)

text \<open>
  Claim C10. Every operation keeps the invariant: \<open>is_playing\<close> and \<open>paused\<close> are not both
  set, and when one of them is set the playlist is not empty and the index lies in
  \<open>[0, len(playlist))\<close>. \<open>add_songs\<close> breaks it, by the stale index of claim C1: on three
  songs with index 2 and the player playing, loading a single song replaces the playlist,
  then raises \<open>IndexError\<close> on \<open>self.playlist[self.index]\<close>, and leaves the player with
  \<open>is_playing\<close> set and index 2 on a playlist of length 1. The backend accepted every
  command of the run.
\<close>

theorem add_songs_raise_breaks_invariant:
  "raised (run
     [(accepting 0 rd_a, AddSongs [''a.mp3'', ''b.mp3'', ''c.mp3'']),
      (accepting 1000 rd_a, NextSong),
      (accepting 2000 rd_a, NextSong),
      (accepting 3000 rd_a, AddSongs [''x.mp3''])]
     (init True PlayBnt)) = Some IndexError
   \<and> (\<lambda>s. (is_playing s, paused s, playlist s, index s, int (length (playlist s))))
       (final_state (run
         [(accepting 0 rd_a, AddSongs [''a.mp3'', ''b.mp3'', ''c.mp3'']),
          (accepting 1000 rd_a, NextSong),
          (accepting 2000 rd_a, NextSong),
          (accepting 3000 rd_a, AddSongs [''x.mp3''])]
         (init True PlayBnt)))
     = (True, False, [''x.mp3''], 2, 1)
   \<and> (\<lambda>s. (is_playing s, paused s, playlist s, index s))
       (final_state (run
         [(accepting 0 rd_a, AddSongs [''a.mp3'', ''b.mp3'', ''c.mp3'']),
          (accepting 1000 rd_a, NextSong),
          (accepting 2000 rd_a, NextSong)]
         (init True PlayBnt)))
     = (True, False, [''a.mp3'', ''b.mp3'', ''c.mp3''], 2)"
  by (simp add: eval_defs str_nat.simps)

text \<open>
  Claim C2. Resuming from pause re-anchors the clock, so that the position right after the
  resume is the position shown while paused. \<open>toggle_play_pause\<close> leaves \<open>seek_offset\<close> and
  \<open>last_update_time\<close> as they were: a song started at tick 0 and paused at tick 5000 shows
  position 0 while paused, and position 20 right after the resume at tick 20000.
\<close>

theorem resume_keeps_old_anchor:
  "map_option (\<lambda>s. (status_of s, get_current_position (accepting 19999 rd_a) s))
     (returned (run
       [(accepting 0 rd_a, AddSongs [''a.mp3'']),
        (accepting 5000 rd_a, TogglePlayPause)]
       (init True PlayBnt))) = Some (Paused, 0)
   \<and> map_option (\<lambda>s. (status_of s, get_current_position (accepting 20000 rd_a) s,
                       seek_offset s, last_update_time s))
     (returned (run
       [(accepting 0 rd_a, AddSongs [''a.mp3'']),
        (accepting 5000 rd_a, TogglePlayPause),
        (accepting 20000 rd_a, TogglePlayPause)]
       (init True PlayBnt))) = Some (Playing, 20, 0, 0)"
  by (simp add: eval_defs str_nat.simps)

theorem resume_keeps_old_anchor_jump:
  "map_option (get_current_position (accepting 20000 rd_a))
     (returned (run
       [(accepting 0 rd_a, AddSongs [''a.mp3'']),
        (accepting 5000 rd_a, TogglePlayPause),
        (accepting 20000 rd_a, TogglePlayPause)]
       (init True PlayBnt)))
   \<noteq> map_option (get_current_position (accepting 19999 rd_a))
     (returned (run
       [(accepting 0 rd_a, AddSongs [''a.mp3'']),
        (accepting 5000 rd_a, TogglePlayPause)]
       (init True PlayBnt)))"
proof
  assume eq: "map_option (get_current_position (accepting 20000 rd_a))
     (returned (run
       [(accepting 0 rd_a, AddSongs [''a.mp3'']),
        (accepting 5000 rd_a, TogglePlayPause),
        (accepting 20000 rd_a, TogglePlayPause)]
       (init True PlayBnt)))
   = map_option (get_current_position (accepting 19999 rd_a))
     (returned (run
       [(accepting 0 rd_a, AddSongs [''a.mp3'']),
        (accepting 5000 rd_a, TogglePlayPause)]
       (init True PlayBnt)))"
  from resume_keeps_old_anchor eq show False
    by (auto simp: map_option_case split: option.splits)
qed

text \<open>
  Claim C3. When the tags of a track cannot be read, the metadata are the empty title, the
  empty artist and the duration 0, and nothing is raised. \<open>_song_meta_data\<close> raises nothing,
  but it leaves the four fields as the previous track set them: after \<open>next_song\<close> moves
  from a readable file to an unreadable one, title, artist and length are still those of
  the first file.
\<close>

theorem metadata_failure_keeps_previous_track:
  "map_option (\<lambda>s. (index s, current_song_title s, current_song_artist s, song_length s,
                     current_song_length s))
     (returned (run
       [(accepting 0 rd_a, AddSongs [''a.mp3'', ''b.mp3'']),
        (accepting 1000 rd_a, NextSong)]
       (init True PlayBnt))) = Some (1, ''Song A'', ''Artist A'', 200, ''3:20'')
   \<and> read_mp3 (accepting 1000 rd_a) ''b.mp3'' = None"
  by (simp add: eval_defs str_nat.simps)

text \<open>
  Claim C4. When the backend rejects \<open>set_pos\<close>, \<open>seek_offset\<close> and \<open>last_update_time\<close> keep
  their values and nothing is raised. \<open>adjust_song\<close> raises nothing, but it has stored the
  target and the tick before it calls \<open>set_pos\<close>: a rejected seek to one half of a song of
  200 seconds at tick 5000 leaves the offset 100 and the time 5000, where both were 0.
\<close>

theorem rejected_seek_moves_anchor:
  "map_option (\<lambda>s. (seek_offset s, last_update_time s))
     (returned (run [(accepting 0 rd_a, AddSongs [''a.mp3''])] (init True PlayBnt)))
     = Some (0, 0)
   \<and> map_option (\<lambda>s. (seek_offset s, last_update_time s, backend_calls s))
     (returned (run
       [(accepting 0 rd_a, AddSongs [''a.mp3'']),
        (rejecting_set_pos (accepting 5000 rd_a), AdjustSong (1 / 2))]
       (init True PlayBnt))) = Some (100, 5000, [Load ''a.mp3'', Play, SetPos 100])"
  by (simp add: eval_defs str_nat.simps)

text \<open>
  Claim C5. When the mixer failed to initialise (\<open>AUDIO_OK\<close> is false), no method calls
  the backend or changes the playback state. \<open>change_volume\<close> calls \<open>set_volume\<close> all the
  same, and \<open>add_songs\<close> and \<open>toggle_play_pause\<close> set and clear \<open>is_playing\<close> although
  nothing is played.
\<close>

theorem backend_unavailable_not_disabled:
  "map_option backend_calls (returned (change_volume (accepting 0 rd_a) (1 / 2) (init False PlayBnt)))
     = Some [SetVolume (1 / 2)]
   \<and> map_option (\<lambda>s. (is_playing s, backend_calls s))
       (returned (run [(accepting 0 rd_a, AddSongs [''a.mp3''])] (init False PlayBnt)))
     = Some (True, [])
   \<and> map_option (\<lambda>s. (is_playing s, backend_calls s))
       (returned (run [(accepting 0 rd_a, AddSongs [''a.mp3'']),
                       (accepting 1000 rd_a, TogglePlayPause)] (init False PlayBnt)))
     = Some (False, [])"
  by (simp add: eval_defs str_nat.simps)

end
